theory Spec2Isabelle
  imports Main
begin

section \<open>Python values and exceptions used by \<open>pyProperties.py\<close>\<close>

text \<open>
  A Python \<open>dict\<close> keeps its keys in insertion order, \<open>popitem\<close> removes the pair
  inserted last and \<open>list(d)[0]\<close> is the key inserted first, so a dictionary is an
  association list in insertion order. Keys and values are strings, as the load step
  produces them.
\<close>

type_synonym dict = "(string \<times> string) list"

text \<open>An element of \<open>self.properties\<close> (\<open>list[str | dict]\<close>), and an argument of
  \<open>set_property\<close>; there \<open>Str\<close> stands for any object that is not a \<open>dict\<close>.\<close>

datatype pyobj = is_Str: Str (the_str: string) | is_Dict: Dict (the_dict: dict)

text \<open>
  The exceptions the methods can raise. \<open>IndexError\<close> is the interpreter's "list index
  out of range"; \<open>IndexError_no_item\<close> is the \<open>IndexError("No configuration item
  names ...")\<close> raised by \<open>get_property\<close>; \<open>TypeError_wrong_argument\<close> is the
  \<open>TypeError("Wrong argument: expecting 'dict' ...")\<close> raised by \<open>set_property\<close>;
  \<open>TypeError\<close> is the interpreter's failed \<open>str + dict\<close>; \<open>OSError\<close> is any failure
  of \<open>open(self.fileName, 'w')\<close> (a missing directory, a missing permission).
\<close>

datatype error =
    FileNotFoundError
  | OSError
  | IndexError
  | IndexError_no_item
  | KeyError
  | TypeError
  | TypeError_wrong_argument
  | AttributeError
  | ValueError

abbreviation newline :: char where
  "newline \<equiv> CHR 0x0A"

subsection \<open>Strings\<close>

text \<open>\<open>s.find(c)\<close> for a one-character \<open>c\<close>: the first index of \<open>c\<close>, or \<open>-1\<close>.\<close>

fun str_find :: "char \<Rightarrow> string \<Rightarrow> int" where
  "str_find c [] = - 1"
| "str_find c (x # xs) =
     (if x = c then 0
      else (let r = str_find c xs in if r < 0 then - 1 else r + 1))"

text \<open>\<open>s.replace(c, '')\<close>: every occurrence of \<open>c\<close> is removed.\<close>

definition replace_empty :: "char \<Rightarrow> string \<Rightarrow> string" where
  "replace_empty c s = filter (\<lambda>x. x \<noteq> c) s"

text \<open>\<open>s.split(c)\<close>: the pieces between all occurrences of \<open>c\<close>.\<close>

fun str_split :: "char \<Rightarrow> string \<Rightarrow> string list" where
  "str_split c [] = [[]]"
| "str_split c (x # xs) =
     (if x = c then [] # str_split c xs
      else (case str_split c xs of
              [] \<Rightarrow> [[x]]
            | p # ps \<Rightarrow> (x # p) # ps))"

text \<open>Iterating a text file: the lines of the text, each with its terminating
  newline (the last line may lack one).\<close>

fun file_lines :: "string \<Rightarrow> string list" where
  "file_lines [] = []"
| "file_lines (x # xs) =
     (if x = newline then [x] # file_lines xs
      else (case file_lines xs of
              [] \<Rightarrow> [[x]]
            | l # ls \<Rightarrow> (x # l) # ls))"

subsection \<open>Lists and dictionaries\<close>

text \<open>\<open>xs[n]\<close> for \<open>n \<ge> 0\<close>.\<close>

definition index :: "'a list \<Rightarrow> nat \<Rightarrow> error + 'a" where
  "index xs n = (if n < length xs then Inr (xs ! n) else Inl IndexError)"

text \<open>\<open>d[k] = v\<close>: an existing key keeps its position, a new key goes last.\<close>

fun dict_setitem :: "string \<Rightarrow> string \<Rightarrow> dict \<Rightarrow> dict" where
  "dict_setitem k v [] = [(k, v)]"
| "dict_setitem k v (p # ps) =
     (if fst p = k then (k, v) # ps else p # dict_setitem k v ps)"

text \<open>\<open>d.update(arg)\<close> for a dictionary \<open>arg\<close>.\<close>

definition dict_update :: "dict \<Rightarrow> dict \<Rightarrow> dict" where
  "dict_update d arg = foldl (\<lambda>acc kv. dict_setitem (fst kv) (snd kv) acc) d arg"

definition dict_keys :: "dict \<Rightarrow> string list" where
  "dict_keys d = map fst d"

text \<open>\<open>d[k]\<close>.\<close>

definition dict_getitem :: "dict \<Rightarrow> string \<Rightarrow> error + string" where
  "dict_getitem d k = (case map_of d k of None \<Rightarrow> Inl KeyError | Some v \<Rightarrow> Inr v)"

text \<open>\<open>d.popitem()\<close>: removes and returns the pair inserted last.\<close>

definition popitem :: "dict \<Rightarrow> error + ((string \<times> string) \<times> dict)" where
  "popitem d = (if d = [] then Inl KeyError else Inr (last d, butlast d))"

section \<open>The class \<open>Properties\<close>\<close>

text \<open>The instance: the bound file name and the two parallel lists.\<close>

record Properties =
  fileName :: string
  isComment :: "int list"
  properties :: "pyobj list"

text \<open>
  The files the instance can reach: the text of each existing file, as text mode
  presents it (decoded, line ends as \<open>\n\<close>), and whether a path can be opened for
  writing.
\<close>

record filesystem =
  contents :: "string \<rightharpoonup> string"
  writable :: "string \<Rightarrow> bool"

subsection \<open>\<open>fread\<close>\<close>

text \<open>The body of the loop over the lines of the file.\<close>

definition fread_line :: "string \<Rightarrow> Properties \<Rightarrow> (error + unit) \<times> Properties" where
  "fread_line line s =
     (if str_find CHR ''#'' line = 0 then
        (Inr (),
         s\<lparr>isComment := isComment s @ [1],
           properties := properties s
              @ [Str (replace_empty newline (replace_empty CHR ''#'' line))]\<rparr>)
      else if str_find CHR ''='' line > 0 then
        (let config = str_split CHR ''='' (replace_empty newline line) in
         case index config 0 of
           Inl e \<Rightarrow> (Inl e, s)
         | Inr k \<Rightarrow>
             (case index config 1 of
                Inl e \<Rightarrow> (Inl e, s)
              | Inr v \<Rightarrow>
                  (Inr (),
                   s\<lparr>isComment := isComment s @ [0],
                     properties := properties s @ [Dict [(k, v)]]\<rparr>)))
      else (Inr (), s))"

fun fread_loop :: "string list \<Rightarrow> Properties \<Rightarrow> (error + unit) \<times> Properties" where
  "fread_loop [] s = (Inr (), s)"
| "fread_loop (line # rest) s =
     (case fread_line line s of
        (Inl e, s') \<Rightarrow> (Inl e, s')
      | (Inr _, s') \<Rightarrow> fread_loop rest s')"

text \<open>\<open>fread(file_name)\<close>; the empty \<open>file_name\<close> is the default argument, replaced by
  the bound name. It returns \<open>self.properties\<close>.\<close>

definition fread :: "string \<Rightarrow> Properties \<Rightarrow> filesystem \<Rightarrow> (error + pyobj list) \<times> Properties" where
  "fread file_name s fs =
     (let file_name = (if file_name = [] then fileName s else file_name) in
      case contents fs file_name of
        None \<Rightarrow> (Inl FileNotFoundError, s)
      | Some text \<Rightarrow>
          (case fread_loop (file_lines text) s of
             (Inl e, s') \<Rightarrow> (Inl e, s')
           | (Inr _, s') \<Rightarrow> (Inr (properties s'), s')))"

text \<open>\<open>Properties(file_name)\<close>: no instance exists when the first read raises.\<close>

definition init :: "string \<Rightarrow> filesystem \<Rightarrow> error + Properties" where
  "init file_name fs =
     (case fread [] \<lparr>fileName = file_name, isComment = [], properties = []\<rparr> fs of
        (Inl e, _) \<Rightarrow> Inl e
      | (Inr _, s) \<Rightarrow> Inr s)"

subsection \<open>\<open>fwrite\<close>\<close>

text \<open>The loop over \<open>range(len(self.properties))\<close>, building \<open>buffer\<close>.\<close>

fun fwrite_loop :: "nat list \<Rightarrow> string list \<Rightarrow> Properties \<Rightarrow> (error + string list) \<times> Properties" where
  "fwrite_loop [] buffer s = (Inr buffer, s)"
| "fwrite_loop (data_num # rest) buffer s =
     (case index (isComment s) data_num of
        Inl e \<Rightarrow> (Inl e, s)
      | Inr c \<Rightarrow>
          (case index (properties s) data_num of
             Inl e \<Rightarrow> (Inl e, s)
           | Inr p \<Rightarrow>
               if c \<noteq> 0 then
                 (case p of
                    Str t \<Rightarrow> fwrite_loop rest (buffer @ [''# '' @ t @ [newline]]) s
                  | Dict d \<Rightarrow> (Inl TypeError, s))
               else
                 (case p of
                    Str t \<Rightarrow> (Inl AttributeError, s)
                  | Dict d \<Rightarrow>
                      (case popitem d of
                         Inl e \<Rightarrow> (Inl e, s)
                       | Inr (kv, d') \<Rightarrow>
                           fwrite_loop rest
                             (buffer @ [fst kv @ ''='' @ snd kv @ [newline]])
                             (s\<lparr>properties := (properties s)[data_num := Dict d']\<rparr>)))))"

text \<open>\<open>fwrite()\<close>: \<open>buffer[-1].rstrip()\<close> reads the last line and drops the result;
  then the bound file is overwritten with the lines of \<open>buffer\<close>.\<close>

definition fwrite :: "Properties \<Rightarrow> filesystem \<Rightarrow> (error + unit) \<times> Properties \<times> filesystem" where
  "fwrite s fs =
     (case fwrite_loop [0..<length (properties s)] [] s of
        (Inl e, s') \<Rightarrow> (Inl e, s', fs)
      | (Inr buffer, s') \<Rightarrow>
          if buffer = [] then (Inl IndexError, s', fs)
          else if \<not> writable fs (fileName s') then (Inl OSError, s', fs)
          else (Inr (), s', fs\<lparr>contents := (contents fs)(fileName s' \<mapsto> concat buffer)\<rparr>))"

subsection \<open>\<open>get_all_properties\<close> and \<open>get_property\<close>\<close>

text \<open>\<open>all_properties.update(x)\<close> with a string \<open>x\<close> iterates its characters as pairs:
  nothing happens for the empty string, any other string raises \<open>ValueError\<close>.\<close>

fun get_all_loop :: "nat list \<Rightarrow> dict \<Rightarrow> Properties \<Rightarrow> error + dict" where
  "get_all_loop [] all_properties s = Inr all_properties"
| "get_all_loop (data_num # rest) all_properties s =
     (case index (isComment s) data_num of
        Inl e \<Rightarrow> Inl e
      | Inr c \<Rightarrow>
          if c = 0 then
            (case index (properties s) data_num of
               Inl e \<Rightarrow> Inl e
             | Inr (Dict d) \<Rightarrow> get_all_loop rest (dict_update all_properties d) s
             | Inr (Str t) \<Rightarrow>
                 if t = [] then get_all_loop rest all_properties s else Inl ValueError)
          else get_all_loop rest all_properties s)"

definition get_all_properties :: "Properties \<Rightarrow> error + dict" where
  "get_all_properties s = get_all_loop [0..<length (properties s)] [] s"

fun get_property_loop :: "nat list \<Rightarrow> string \<Rightarrow> Properties \<Rightarrow> error + string" where
  "get_property_loop [] arg s = Inl IndexError_no_item"
| "get_property_loop (data_num # rest) arg s =
     (case index (isComment s) data_num of
        Inl e \<Rightarrow> Inl e
      | Inr c \<Rightarrow>
          if c = 0 then
            (case index (properties s) data_num of
               Inl e \<Rightarrow> Inl e
             | Inr (Str t) \<Rightarrow> Inl AttributeError
             | Inr (Dict d) \<Rightarrow>
                 if arg \<in> set (dict_keys d) then dict_getitem d arg
                 else get_property_loop rest arg s)
          else get_property_loop rest arg s)"

definition get_property :: "Properties \<Rightarrow> string \<Rightarrow> error + string" where
  "get_property s arg = get_property_loop [0..<length (properties s)] arg s"

subsection \<open>\<open>set_property\<close>\<close>

text \<open>The inner \<open>for ... else\<close>: the result is \<open>True\<close> when the loop left through
  \<open>break\<close>, \<open>False\<close> when it ran to its end (and the \<open>else\<close> branch is due).\<close>

fun set_property_search :: "nat list \<Rightarrow> dict \<Rightarrow> Properties \<Rightarrow> (error + bool) \<times> Properties" where
  "set_property_search [] arg s = (Inr False, s)"
| "set_property_search (data_num # rest) arg s =
     (case index (isComment s) data_num of
        Inl e \<Rightarrow> (Inl e, s)
      | Inr c \<Rightarrow>
          if c = 0 then
            (case index (dict_keys arg) 0 of
               Inl e \<Rightarrow> (Inl e, s)
             | Inr k0 \<Rightarrow>
                 (case index (properties s) data_num of
                    Inl e \<Rightarrow> (Inl e, s)
                  | Inr (Str t) \<Rightarrow> (Inl AttributeError, s)
                  | Inr (Dict d) \<Rightarrow>
                      if k0 \<in> set (dict_keys d) then
                        (Inr True,
                         s\<lparr>properties := (properties s)[data_num := Dict (dict_update d arg)]\<rparr>)
                      else set_property_search rest arg s))
          else set_property_search rest arg s)"

text \<open>The outer loop over the arguments \<open>*kv\<close>. The source appends the caller's own
  dictionary object; the instance here holds its value, so what a caller does later
  with an object it has passed (passing it again, changing it) is not followed.\<close>

fun set_property_args :: "pyobj list \<Rightarrow> Properties \<Rightarrow> (error + unit) \<times> Properties" where
  "set_property_args [] s = (Inr (), s)"
| "set_property_args (arg # rest) s =
     (case arg of
        Str t \<Rightarrow> (Inl TypeError_wrong_argument, s)
      | Dict a \<Rightarrow>
          (case set_property_search [0..<length (properties s)] a s of
             (Inl e, s') \<Rightarrow> (Inl e, s')
           | (Inr True, s') \<Rightarrow> set_property_args rest s'
           | (Inr False, s') \<Rightarrow>
               set_property_args rest
                 (s'\<lparr>properties := properties s' @ [Dict a],
                     isComment := isComment s' @ [0]\<rparr>)))"

definition set_property :: "pyobj list \<Rightarrow> Properties \<Rightarrow> (error + int) \<times> Properties" where
  "set_property kv s =
     (case set_property_args kv s of
        (Inl e, s') \<Rightarrow> (Inl e, s')
      | (Inr _, s') \<Rightarrow> (Inr (int (length kv)), s'))"

section \<open>Vocabulary of the properties\<close>

text \<open>
  The two parallel lists agree: they have the same length, a string is flagged \<open>1\<close>
  and a dictionary is flagged \<open>0\<close>.
\<close>

definition invar :: "Properties \<Rightarrow> bool" where
  "invar s =
     list_all2 (\<lambda>c p. case p of Str t \<Rightarrow> c = 1 | Dict d \<Rightarrow> c = 0)
       (isComment s) (properties s)"

text \<open>Every dictionary of the instance holds each key once, as a Python \<open>dict\<close> does.\<close>

definition dicts_distinct :: "Properties \<Rightarrow> bool" where
  "dicts_distinct s =
     list_all (\<lambda>p. case p of Str t \<Rightarrow> True | Dict d \<Rightarrow> distinct (dict_keys d))
       (properties s)"

definition entry_has_key :: "string \<Rightarrow> pyobj \<Rightarrow> bool" where
  "entry_has_key k p = (case p of Str t \<Rightarrow> False | Dict d \<Rightarrow> k \<in> set (dict_keys d))"

text \<open>Position \<open>i\<close> is a key-value entry with the key \<open>k\<close>.\<close>

definition holds_key :: "Properties \<Rightarrow> string \<Rightarrow> nat \<Rightarrow> bool" where
  "holds_key s k i =
     (i < length (properties s) \<and> i < length (isComment s) \<and> isComment s ! i = 0
      \<and> entry_has_key k (properties s ! i))"

text \<open>The number of key-value entries with the key \<open>k\<close>.\<close>

definition key_count :: "Properties \<Rightarrow> string \<Rightarrow> nat" where
  "key_count s k = length (filter (holds_key s k) [0..<length (properties s)])"

text \<open>The dictionaries among the entries, merged in order into an empty dictionary
  with \<open>update\<close>.\<close>

definition merged :: "pyobj list \<Rightarrow> dict" where
  "merged ps = foldl dict_update [] (map the_dict (filter is_Dict ps))"

text \<open>The file of the example run at the end of the source, with a given text.\<close>

definition example_fs :: "string \<Rightarrow> filesystem" where
  "example_fs text =
     \<lparr>contents = [''example.properties'' \<mapsto> text], writable = (\<lambda>path. True)\<rparr>"

text \<open>The instance loaded from the two lines \<open>a=1\<close>, \<open>a=2\<close>: the same key twice.\<close>

definition duplicate_example :: Properties where
  "duplicate_example =
     \<lparr>fileName = ''example.properties'', isComment = [0, 0],
      properties = [Dict [(''a'', ''1'')], Dict [(''a'', ''2'')]]\<rparr>"

text \<open>Loading a text: the entries of the new instance.\<close>

definition load :: "string \<Rightarrow> error + pyobj list" where
  "load text =
     (case init ''example.properties'' (example_fs text) of
        Inl e \<Rightarrow> Inl e
      | Inr s \<Rightarrow> Inr (properties s))"

text \<open>Loading a text and saving at once: the text of the file afterwards.\<close>

definition load_save :: "string \<Rightarrow> error + string option" where
  "load_save text =
     (case init ''example.properties'' (example_fs text) of
        Inl e \<Rightarrow> Inl e
      | Inr s \<Rightarrow>
          (case fwrite s (example_fs text) of
             (Inl e, s', fs') \<Rightarrow> Inl e
           | (Inr u, s', fs') \<Rightarrow> Inr (contents fs' ''example.properties'')))"

section \<open>The two lists stay parallel\<close>

lemma invar_length: "invar s \<Longrightarrow> length (isComment s) = length (properties s)"
  by (simp add: invar_def list_all2_lengthD)

lemma invar_nth_Dict:
  "invar s \<Longrightarrow> n < length (properties s) \<Longrightarrow> (isComment s ! n = 0) = is_Dict (properties s ! n)"
  unfolding invar_def
  by (drule list_all2_nthD2[where p = n]) (auto split: pyobj.splits)

lemma invar_nth_Str:
  "invar s \<Longrightarrow> n < length (properties s) \<Longrightarrow> (isComment s ! n = 1) = is_Str (properties s ! n)"
  unfolding invar_def
  by (drule list_all2_nthD2[where p = n]) (auto split: pyobj.splits)

lemma is_Dict_iff: "is_Dict p \<longleftrightarrow> \<not> is_Str p"
  by (cases p) auto

lemma invar_index:
  "invar s \<longleftrightarrow>
     length (isComment s) = length (properties s) \<and>
     (\<forall>i<length (properties s).
        (isComment s ! i = 1 \<longleftrightarrow> is_Str (properties s ! i)) \<and>
        (isComment s ! i = 0 \<longleftrightarrow> is_Dict (properties s ! i)))"
  unfolding invar_def list_all2_conv_all_nth
  by (auto simp: pyobj.case_eq_if is_Dict_iff)

lemma invar_update_Dict:
  "invar s \<Longrightarrow> n < length (properties s) \<Longrightarrow> is_Dict (properties s ! n) \<Longrightarrow>
   invar (s\<lparr>properties := (properties s)[n := Dict d']\<rparr>)"
  unfolding invar_index
  by (auto simp: nth_list_update)

lemma invar_append:
  "invar s \<Longrightarrow> (case p of Str t \<Rightarrow> c = 1 | Dict d \<Rightarrow> c = 0) \<Longrightarrow>
   invar (s\<lparr>isComment := isComment s @ [c], properties := properties s @ [p]\<rparr>)"
  unfolding invar_def
  by (simp add: list_all2_appendI)

lemma invar_append_rev:
  "invar s \<Longrightarrow> (case p of Str t \<Rightarrow> c = 1 | Dict d \<Rightarrow> c = 0) \<Longrightarrow>
   invar (s\<lparr>properties := properties s @ [p], isComment := isComment s @ [c]\<rparr>)"
  unfolding invar_def
  by (simp add: list_all2_appendI)

lemma invar_fread_line: "invar s \<Longrightarrow> invar (snd (fread_line line s))"
  unfolding fread_line_def
  by (auto simp: Let_def invar_append split: sum.splits)

lemma invar_fread_loop: "invar s \<Longrightarrow> invar (snd (fread_loop ls s))"
proof (induction ls arbitrary: s)
  case Nil
  then show ?case by simp
next
  case (Cons l ls)
  from Cons.prems have i: "invar (snd (fread_line l s))" by (rule invar_fread_line)
  show ?case
  proof (cases "fread_line l s")
    case (Pair r s')
    with i have "invar s'" by simp
    with Pair Cons.IH[of s'] show ?thesis by (cases r) auto
  qed
qed

lemma invar_fread: "invar s \<Longrightarrow> invar (snd (fread fn s fs))"
  unfolding fread_def Let_def
  using invar_fread_loop[of s]
  by (auto split: option.splits sum.splits prod.splits) (metis snd_conv)+

lemma invar_fwrite_loop: "invar s \<Longrightarrow> invar (snd (fwrite_loop ns buffer s))"
proof (induction ns buffer s rule: fwrite_loop.induct)
  case (1 buffer s)
  then show ?case by simp
next
  case (2 data_num rest buffer s)
  then show ?case
    by (auto simp: index_def popitem_def invar_update_Dict split: sum.splits pyobj.splits if_splits prod.splits)
qed

lemma invar_search: "invar s \<Longrightarrow> invar (snd (set_property_search ns arg s))"
proof (induction ns arg s rule: set_property_search.induct)
  case (1 arg s)
  then show ?case by simp
next
  case (2 data_num rest arg s)
  then show ?case
    by (auto simp: index_def invar_update_Dict split: sum.splits pyobj.splits if_splits)
qed

lemma invar_set_property_args: "invar s \<Longrightarrow> invar (snd (set_property_args kv s))"
proof (induction kv arbitrary: s)
  case Nil
  then show ?case by simp
next
  case (Cons arg kv)
  show ?case
  proof (cases arg)
    case (Str t)
    with Cons.prems show ?thesis by simp
  next
    case (Dict a)
    from Cons.prems have i: "invar (snd (set_property_search [0..<length (properties s)] a s))"
      by (rule invar_search)
    show ?thesis
    proof (cases "set_property_search [0..<length (properties s)] a s")
      case (Pair r s')
      with i have s': "invar s'" by simp
      then have "invar (s'\<lparr>properties := properties s' @ [Dict a], isComment := isComment s' @ [0]\<rparr>)"
        by (simp add: invar_append_rev)
      with s' Pair Dict Cons.IH show ?thesis
        by (auto split: sum.splits bool.splits)
    qed
  qed
qed

lemma invar_set_property: "invar s \<Longrightarrow> invar (snd (set_property kv s))"
  using invar_set_property_args[of s kv]
  by (auto simp: set_property_def split: prod.splits sum.splits)

lemma invar_fwrite: "invar s \<Longrightarrow> invar (fst (snd (fwrite s fs)))"
  using invar_fwrite_loop[of s "[0..<length (properties s)]" "[]"]
  by (auto simp: fwrite_def split: prod.splits sum.splits)

lemma invar_init: "case init file_name fs of Inl e \<Rightarrow> True | Inr s0 \<Rightarrow> invar s0"
proof -
  have "invar \<lparr>fileName = file_name, isComment = [], properties = []\<rparr>"
    by (simp add: invar_def)
  then have "invar (snd (fread [] \<lparr>fileName = file_name, isComment = [], properties = []\<rparr> fs))"
    by (rule invar_fread)
  then show ?thesis
    by (auto simp: init_def split: prod.splits sum.splits)
qed

text \<open>
  C10. The instance a construction returns has parallel lists: \<open>_isComment\<close> and
  \<open>properties\<close> have the same length, the flag is \<open>1\<close> exactly at the strings and
  \<open>0\<close> exactly at the dictionaries. \<open>fread\<close> (a reload), \<open>set_property\<close> and \<open>fwrite\<close>
  keep this, also when they raise; \<open>get_property\<close> and \<open>get_all_properties\<close> assign
  nothing to the instance, so they are functions of it.
\<close>

theorem parallel_lists_invariant:
  assumes "invar s"
  shows "(case init file_name fs of Inl e \<Rightarrow> True | Inr s0 \<Rightarrow> invar s0)
       \<and> invar (snd (fread file_name s fs))
       \<and> invar (snd (set_property kv s))
       \<and> invar (fst (snd (fwrite s fs)))
       \<and> length (isComment s) = length (properties s)
       \<and> (\<forall>i<length (properties s).
            (isComment s ! i = 1 \<longleftrightarrow> is_Str (properties s ! i)) \<and>
            (isComment s ! i = 0 \<longleftrightarrow> is_Dict (properties s ! i)))"
proof -
  note invar_init[of file_name fs]
  moreover note invar_fread[OF assms, of file_name fs]
  moreover note invar_set_property[OF assms, of kv]
  moreover note invar_fwrite[OF assms, of fs]
  moreover note iffD1[OF invar_index assms]
  ultimately show ?thesis by blast
qed

theorem parallel_lists_invariant_witness:
  "invar \<lparr>fileName = ''example.properties'', isComment = [1, 0],
          properties = [Str '' hello'', Dict [(''foo'', ''bar'')]]\<rparr>
   \<and> invar (snd (set_property [Dict [(''new'', ''1'')]]
        \<lparr>fileName = ''example.properties'', isComment = [1, 0],
         properties = [Str '' hello'', Dict [(''foo'', ''bar'')]]\<rparr>))"
proof -
  have h: "invar \<lparr>fileName = ''example.properties'', isComment = [1, 0],
          properties = [Str '' hello'', Dict [(''foo'', ''bar'')]]\<rparr>"
    by (simp add: invar_def)
  from parallel_lists_invariant[OF h, of "[]" "example_fs []" "[Dict [(''new'', ''1'')]]"] h
  show ?thesis by blast
qed

section \<open>Loading and saving concrete files\<close>

lemmas run_defs = load_def load_save_def init_def fread_def fread_line_def fwrite_def
  example_fs_def replace_empty_def index_def popitem_def get_property_def
  get_all_properties_def dict_keys_def dict_getitem_def dict_update_def set_property_def

text \<open>
  C1. \<open>fwrite\<close> takes the pair out of each dictionary with \<open>popitem\<close>, which removes
  it: the instance loaded from \<open>foo=bar\<close> holds the entry \<open>{}\<close> after \<open>fwrite\<close>
  instead of \<open>{foo: bar}\<close>. Before the call \<open>get_property('foo')\<close> is \<open>bar\<close>; after
  it \<open>get_property('foo')\<close> raises, \<open>get_all_properties()\<close> is empty and a second
  \<open>fwrite\<close> raises \<open>KeyError\<close>.
\<close>

theorem fwrite_empties_key_values:
  "init ''example.properties'' (example_fs (''foo=bar'' @ [newline]))
     = Inr \<lparr>fileName = ''example.properties'', isComment = [0],
            properties = [Dict [(''foo'', ''bar'')]]\<rparr>
   \<and> fst (snd (fwrite \<lparr>fileName = ''example.properties'', isComment = [0],
                       properties = [Dict [(''foo'', ''bar'')]]\<rparr> fs))
     = \<lparr>fileName = ''example.properties'', isComment = [0], properties = [Dict []]\<rparr>
   \<and> get_property \<lparr>fileName = ''example.properties'', isComment = [0],
                    properties = [Dict [(''foo'', ''bar'')]]\<rparr> ''foo'' = Inr ''bar''
   \<and> get_property \<lparr>fileName = ''example.properties'', isComment = [0],
                    properties = [Dict []]\<rparr> ''foo'' = Inl IndexError_no_item
   \<and> get_all_properties \<lparr>fileName = ''example.properties'', isComment = [0],
                    properties = [Dict []]\<rparr> = Inr []
   \<and> fst (fwrite \<lparr>fileName = ''example.properties'', isComment = [0],
                  properties = [Dict []]\<rparr> fs) = Inl KeyError"
  by (simp add: run_defs)

text \<open>
  C2. \<open>fread\<close> splits a key-value line at every \<open>=\<close> and keeps the first two pieces:
  the line \<open>k=v1=v2\<close> is stored as the pair \<open>(k, v1)\<close>, the rest of the value is lost.
\<close>

theorem fread_cuts_value_at_second_equals:
  "load (''k=v1=v2'' @ [newline]) = Inr [Dict [(''k'', ''v1'')]]"
  by (simp add: run_defs)

text \<open>
  C3, as the claim states it: the text \<open># hello\<close>, \<open>foo=bar\<close> does not load into the
  comment \<open>hello\<close>, and saving does not write the same text back.
\<close>

theorem comment_roundtrip_counterexample:
  "load (''# hello'' @ [newline] @ ''foo=bar'' @ [newline])
     \<noteq> Inr [Str ''hello'', Dict [(''foo'', ''bar'')]]
   \<and> load_save (''# hello'' @ [newline] @ ''foo=bar'' @ [newline])
     \<noteq> Inr (Some (''# hello'' @ [newline] @ ''foo=bar'' @ [newline]))"
  by (simp add: run_defs)

text \<open>
  C3, amended. Reading removes the \<open>#\<close> only and writing puts \<open>#\<close> and a space
  back: the text \<open># hello\<close>, \<open>foo=bar\<close> loads into the comment \<open> hello\<close> (with its
  leading space) and the pair \<open>(foo, bar)\<close>, and saving writes \<open>#  hello\<close> (two
  spaces), \<open>foo=bar\<close>.
\<close>

theorem comment_roundtrip_adds_space:
  "load (''# hello'' @ [newline] @ ''foo=bar'' @ [newline])
     = Inr [Str '' hello'', Dict [(''foo'', ''bar'')]]
   \<and> load_save (''# hello'' @ [newline] @ ''foo=bar'' @ [newline])
     = Inr (Some (''#  hello'' @ [newline] @ ''foo=bar'' @ [newline]))"
  by (simp add: run_defs)

text \<open>
  C4. An empty file loads into no entries, and \<open>fwrite\<close> on an instance without
  entries raises \<open>IndexError\<close> at \<open>buffer[-1]\<close>, before the file is opened: nothing is
  written.
\<close>

theorem fwrite_empty_raises:
  "load [] = Inr []
   \<and> fwrite \<lparr>fileName = file_name, isComment = [], properties = []\<rparr> fs
     = (Inl IndexError, \<lparr>fileName = file_name, isComment = [], properties = []\<rparr>, fs)"
  by (simp add: run_defs)

text \<open>
  C6. \<open>fread\<close> removes every \<open>#\<close> of a comment line, not the leading one only: the
  line \<open>#a #b\<close> is stored as the comment \<open>a b\<close>. The blank inside is kept.
\<close>

theorem fread_removes_every_hash:
  "load (''#a #b'' @ [newline]) = Inr [Str ''a b'']"
  by (simp add: run_defs)

section \<open>\<open>set_property\<close>\<close>

lemma index_in_range: "n < length xs \<Longrightarrow> index xs n = Inr (xs ! n)"
  by (simp add: index_def)

lemma holds_key_invar:
  "invar s \<Longrightarrow> n < length (properties s) \<Longrightarrow>
   holds_key s k n \<longleftrightarrow> (isComment s ! n = 0 \<and> k \<in> set (dict_keys (the_dict (properties s ! n))))"
  using invar_nth_Dict[of s n] invar_length[of s]
  by (cases "properties s ! n") (auto simp: holds_key_def entry_has_key_def)

lemma find_upt_Some:
  "List.find P [0..<n] = Some i \<longleftrightarrow> i < n \<and> P i \<and> (\<forall>j<i. \<not> P j)"
  by (auto simp: find_Some_iff)

lemma find_upt_None:
  "List.find P [0..<n] = None \<longleftrightarrow> (\<forall>i<n. \<not> P i)"
  by (auto simp: find_None_iff)

lemma search_find:
  assumes "invar s" and "\<forall>n\<in>set ns. n < length (properties s)" and "arg \<noteq> []"
  shows "set_property_search ns arg s =
     (case List.find (holds_key s (fst (hd arg))) ns of
        None \<Rightarrow> (Inr False, s)
      | Some n \<Rightarrow>
          (Inr True,
           s\<lparr>properties := (properties s)[n := Dict (dict_update (the_dict (properties s ! n)) arg)]\<rparr>))"
  using assms(2)
proof (induction ns)
  case Nil
  then show ?case by simp
next
  case (Cons n ns)
  then have n: "n < length (properties s)" and ns: "\<forall>n\<in>set ns. n < length (properties s)"
    by simp_all
  from n assms(1) have nc: "n < length (isComment s)" by (simp add: invar_length)
  from assms(3) have k0: "index (dict_keys arg) 0 = Inr (fst (hd arg))"
    by (cases arg) (simp_all add: index_def dict_keys_def)
  show ?case
  proof (cases "isComment s ! n = 0")
    case True
    with invar_nth_Dict[OF assms(1) n] obtain d where d: "properties s ! n = Dict d"
      by (cases "properties s ! n") auto
    from True d holds_key_invar[OF assms(1) n, of "fst (hd arg)"]
    have h: "holds_key s (fst (hd arg)) n \<longleftrightarrow> fst (hd arg) \<in> set (dict_keys d)" by simp
    show ?thesis
      using True d h k0 Cons.IH[OF ns]
      by (simp add: index_in_range[OF n] index_in_range[OF nc])
  next
    case False
    with holds_key_invar[OF assms(1) n, of "fst (hd arg)"]
    have h: "\<not> holds_key s (fst (hd arg)) n" by simp
    show ?thesis
      using False h Cons.IH[OF ns]
      by (simp add: index_in_range[OF nc])
  qed
qed

lemma search_no_error:
  assumes "invar s" and "arg \<noteq> []"
  shows "\<exists>b s'. set_property_search [0..<length (properties s)] arg s = (Inr b, s') \<and> invar s'"
proof -
  have r: "\<forall>n\<in>set [0..<length (properties s)]. n < length (properties s)" by simp
  obtain r' s' where p: "set_property_search [0..<length (properties s)] arg s = (r', s')"
    by (cases "set_property_search [0..<length (properties s)] arg s")
  from invar_search[OF assms(1), of "[0..<length (properties s)]" arg] p have "invar s'" by simp
  moreover from p search_find[OF assms(1) r assms(2)] have "\<exists>b. r' = Inr b"
    by (auto split: option.splits)
  ultimately show ?thesis using p by blast
qed

lemma set_property_args_result:
  assumes "invar s" and "\<forall>a\<in>set kv. a \<noteq> Dict []"
  shows "fst (set_property_args kv s) =
     (if \<exists>a\<in>set kv. \<not> is_Dict a then Inl TypeError_wrong_argument else Inr ())"
  using assms
proof (induction kv arbitrary: s)
  case Nil
  then show ?case by simp
next
  case (Cons arg kv)
  show ?case
  proof (cases arg)
    case (Str t)
    then show ?thesis by simp
  next
    case (Dict a)
    with Cons.prems have a: "a \<noteq> []" by auto
    from search_no_error[OF Cons.prems(1) a] obtain b s'
      where p: "set_property_search [0..<length (properties s)] a s = (Inr b, s')"
        and i: "invar s'" by blast
    from Cons.prems have rest: "\<forall>a\<in>set kv. a \<noteq> Dict []" by simp
    from i have i2: "invar (s'\<lparr>properties := properties s' @ [Dict a], isComment := isComment s' @ [0]\<rparr>)"
      by (simp add: invar_append_rev)
    show ?thesis
      using Dict p Cons.IH[OF i rest] Cons.IH[OF i2 rest]
      by (cases b) simp_all
  qed
qed

text \<open>
  The type check of \<open>set_property\<close>: when every argument is a dictionary with at
  least one key or is no dictionary, the call raises its \<open>TypeError\<close> exactly when
  some argument is no dictionary, and returns the number of arguments otherwise.
\<close>

lemma set_property_type_check:
  assumes "invar s" and "\<forall>a\<in>set kv. a \<noteq> Dict []"
  shows "fst (set_property kv s) =
     (if \<exists>a\<in>set kv. \<not> is_Dict a then Inl TypeError_wrong_argument
      else Inr (int (length kv)))"
  using set_property_args_result[OF assms]
  by (cases "set_property_args kv s") (auto simp: set_property_def split: sum.splits)

text \<open>
  C5. \<open>set_property\<close> checks only that an argument is a dictionary, not that it has
  one key. A dictionary with two keys is not refused: on an instance without entries
  it is appended whole as one entry, and the call returns 1 although
  \<open>get_all_properties\<close> then shows two properties; on an instance holding \<open>{a: 1}\<close>
  the dictionary \<open>{a: 3, b: 2}\<close> is merged whole into that entry, which then has two
  keys. An empty dictionary is appended as the entry \<open>{}\<close> when the instance has no
  key-value entry, and raises the interpreter's \<open>IndexError\<close>, not the \<open>TypeError\<close>
  of the check, when it has one.
\<close>

theorem set_property_keeps_multi_key_dict:
  "set_property [Dict [(''a'', ''1''), (''b'', ''2'')]]
      \<lparr>fileName = ''example.properties'', isComment = [], properties = []\<rparr>
     = (Inr 1, \<lparr>fileName = ''example.properties'', isComment = [0],
                properties = [Dict [(''a'', ''1''), (''b'', ''2'')]]\<rparr>)
   \<and> get_all_properties
      \<lparr>fileName = ''example.properties'', isComment = [0],
       properties = [Dict [(''a'', ''1''), (''b'', ''2'')]]\<rparr>
     = Inr [(''a'', ''1''), (''b'', ''2'')]
   \<and> set_property [Dict [(''a'', ''3''), (''b'', ''2'')]]
      \<lparr>fileName = ''example.properties'', isComment = [0], properties = [Dict [(''a'', ''1'')]]\<rparr>
     = (Inr 1, \<lparr>fileName = ''example.properties'', isComment = [0],
                properties = [Dict [(''a'', ''3''), (''b'', ''2'')]]\<rparr>)
   \<and> set_property [Dict []]
      \<lparr>fileName = ''example.properties'', isComment = [], properties = []\<rparr>
     = (Inr 1, \<lparr>fileName = ''example.properties'', isComment = [0],
                properties = [Dict []]\<rparr>)
   \<and> set_property [Dict []]
      \<lparr>fileName = ''example.properties'', isComment = [0], properties = [Dict [(''a'', ''1'')]]\<rparr>
     = (Inl IndexError,
        \<lparr>fileName = ''example.properties'', isComment = [0],
         properties = [Dict [(''a'', ''1'')]]\<rparr>)
   \<and> set_property [Str ''x'']
      \<lparr>fileName = ''example.properties'', isComment = [], properties = []\<rparr>
     = (Inl TypeError_wrong_argument,
        \<lparr>fileName = ''example.properties'', isComment = [], properties = []\<rparr>)"
  by (simp add: run_defs)

lemma dict_keys_setitem:
  "dict_keys (dict_setitem k v d) =
     (if k \<in> set (dict_keys d) then dict_keys d else dict_keys d @ [k])"
  by (induction d) (auto simp: dict_keys_def)

lemma dict_update_single: "dict_update d [(k, v)] = dict_setitem k v d"
  by (simp add: dict_update_def)

lemma map_of_setitem: "map_of (dict_setitem k v d) = (map_of d)(k \<mapsto> v)"
  by (induction d) (auto simp: fun_eq_iff)

lemma key_count_0: "key_count s k = 0 \<longleftrightarrow> (\<forall>i. \<not> holds_key s k i)"
proof -
  have "key_count s k = 0 \<longleftrightarrow> (\<forall>i<length (properties s). \<not> holds_key s k i)"
    by (auto simp: key_count_def filter_empty_conv)
  also have "\<dots> \<longleftrightarrow> (\<forall>i. \<not> holds_key s k i)"
    by (auto simp: holds_key_def)
  finally show ?thesis .
qed

lemma set_property_single:
  assumes "invar s"
  shows "set_property [Dict [(k, v)]] s =
     (case List.find (holds_key s k) [0..<length (properties s)] of
        None \<Rightarrow>
          (Inr 1, s\<lparr>properties := properties s @ [Dict [(k, v)]],
                     isComment := isComment s @ [0]\<rparr>)
      | Some i \<Rightarrow>
          (Inr 1, s\<lparr>properties := (properties s)
                       [i := Dict (dict_setitem k v (the_dict (properties s ! i)))]\<rparr>))"
proof -
  have r: "\<forall>n\<in>set [0..<length (properties s)]. n < length (properties s)" by simp
  have a: "[(k, v)] \<noteq> []" by simp
  show ?thesis
    using search_find[OF assms r a]
    by (simp add: set_property_def dict_update_single split: option.splits)
qed

lemma set_property_found:
  assumes "invar s" and "holds_key s k i" and "\<forall>j<i. \<not> holds_key s k j"
  shows "set_property [Dict [(k, v)]] s =
     (Inr 1, s\<lparr>properties := (properties s)
                  [i := Dict (dict_setitem k v (the_dict (properties s ! i)))]\<rparr>)"
proof -
  from assms(2) have "i < length (properties s)" by (simp add: holds_key_def)
  with assms(2,3) have "List.find (holds_key s k) [0..<length (properties s)] = Some i"
    by (simp add: find_upt_Some)
  with set_property_single[OF assms(1), of k v] show ?thesis by simp
qed

lemma set_property_not_found:
  assumes "invar s" and "\<forall>i. \<not> holds_key s k i"
  shows "set_property [Dict [(k, v)]] s =
     (Inr 1, s\<lparr>properties := properties s @ [Dict [(k, v)]],
                isComment := isComment s @ [0]\<rparr>)"
proof -
  from assms(2) have "List.find (holds_key s k) [0..<length (properties s)] = None"
    by (simp add: find_upt_None)
  with set_property_single[OF assms(1), of k v] show ?thesis by simp
qed

lemma first_holder:
  assumes "holds_key s k i"
  shows "\<exists>i0. holds_key s k i0 \<and> (\<forall>j<i0. \<not> holds_key s k j)"
proof -
  let ?i0 = "LEAST i. holds_key s k i"
  from assms have "holds_key s k ?i0" by (rule LeastI)
  moreover have "\<forall>j<?i0. \<not> holds_key s k j" using not_less_Least by blast
  ultimately show ?thesis by blast
qed

lemma holds_key_update:
  assumes "invar s" and "holds_key s k i"
  shows "holds_key (s\<lparr>properties := (properties s)
                  [i := Dict (dict_setitem k v (the_dict (properties s ! i)))]\<rparr>) k' j
         = holds_key s k' j"
proof (cases "j = i")
  case True
  from assms(2) have i: "i < length (properties s)" and k: "entry_has_key k (properties s ! i)"
    by (simp_all add: holds_key_def)
  from k obtain d where d: "properties s ! i = Dict d" and kd: "k \<in> set (dict_keys d)"
    by (cases "properties s ! i") (auto simp: entry_has_key_def)
  from True i d kd show ?thesis
    by (simp add: holds_key_def entry_has_key_def dict_keys_setitem)
next
  case False
  then show ?thesis by (simp add: holds_key_def)
qed

lemma key_count_found:
  assumes "invar s" and "holds_key s k i"
  shows "key_count (s\<lparr>properties := (properties s)
                  [i := Dict (dict_setitem k v (the_dict (properties s ! i)))]\<rparr>) k'
         = key_count s k'"
proof -
  have "holds_key (s\<lparr>properties := (properties s)
                  [i := Dict (dict_setitem k v (the_dict (properties s ! i)))]\<rparr>) k'
        = holds_key s k'"
    using holds_key_update[OF assms] by (simp add: fun_eq_iff)
  then show ?thesis by (simp add: key_count_def)
qed

lemma key_count_appended:
  assumes "invar s"
  shows "key_count (s\<lparr>properties := properties s @ [Dict [(k, v)]],
                      isComment := isComment s @ [0]\<rparr>) k'
         = key_count s k' + (if k' = k then 1 else 0)"
proof -
  let ?s' = "s\<lparr>properties := properties s @ [Dict [(k, v)]], isComment := isComment s @ [0]\<rparr>"
  let ?n = "length (properties s)"
  from assms have l: "length (isComment s) = ?n" by (rule invar_length)
  have old: "filter (holds_key ?s' k') [0..<?n] = filter (holds_key s k') [0..<?n]"
    using l by (intro filter_cong) (auto simp: holds_key_def nth_append)
  have new: "holds_key ?s' k' ?n \<longleftrightarrow> k' = k"
    using l by (auto simp: holds_key_def nth_append entry_has_key_def dict_keys_def)
  show ?thesis
    using old new by (simp add: key_count_def)
qed

lemma snd_set_property: "snd (set_property kv s) = snd (set_property_args kv s)"
  by (cases "set_property_args kv s") (auto simp: set_property_def split: sum.splits)

lemma set_property_args_Cons:
  "set_property_args (a # kv) s =
     (case set_property_args [a] s of
        (Inl e, s') \<Rightarrow> (Inl e, s')
      | (Inr u, s') \<Rightarrow> set_property_args kv s')"
  by (cases a) (auto split: prod.splits sum.splits bool.splits)

lemma set_property_then:
  assumes "invar s"
  shows "snd (set_property (Dict [(k, v)] # kv) s)
       = snd (set_property kv (snd (set_property [Dict [(k, v)]] s)))"
proof -
  have "fst (set_property [Dict [(k, v)]] s) = Inr 1"
    by (simp add: set_property_single[OF assms] split: option.splits)
  then obtain s1 where s1: "set_property_args [Dict [(k, v)]] s = (Inr (), s1)"
    by (cases "set_property_args [Dict [(k, v)]] s")
       (auto simp: set_property_def split: sum.splits)
  have "set_property_args (Dict [(k, v)] # kv) s = set_property_args kv s1"
    by (simp only: set_property_args_Cons[of "Dict [(k, v)]" kv s] s1 prod.case sum.case)
  with s1 show ?thesis
    by (simp only: snd_set_property snd_conv)
qed

text \<open>
  C7. \<open>set_property\<close> with one single-key dictionary \<open>{k: v}\<close> returns 1. When some
  key-value entry holds \<open>k\<close>, the first such entry, and no other, is updated in place
  and both lists keep their length; otherwise \<open>{k: v}\<close> is appended with the flag
  \<open>0\<close>. The number of entries holding any key stays what it was, except that \<open>k\<close>
  is held once when it was held nowhere: no duplicate appears. With any number of
  single-key dictionaries the call returns their number, and a call with several
  dictionaries leaves the instance as the calls with one dictionary each, in order, do.
\<close>

theorem set_property_single_key:
  assumes "invar s"
  shows "fst (set_property [Dict [(k, v)]] s) = Inr 1
     \<and> (\<forall>i. holds_key s k i \<and> (\<forall>j<i. \<not> holds_key s k j) \<longrightarrow>
           snd (set_property [Dict [(k, v)]] s)
             = s\<lparr>properties := (properties s)
                    [i := Dict (dict_setitem k v (the_dict (properties s ! i)))]\<rparr>)
     \<and> ((\<forall>i. \<not> holds_key s k i) \<longrightarrow>
           snd (set_property [Dict [(k, v)]] s)
             = s\<lparr>properties := properties s @ [Dict [(k, v)]],
                  isComment := isComment s @ [0]\<rparr>)
     \<and> length (properties (snd (set_property [Dict [(k, v)]] s)))
         = (if \<exists>i. holds_key s k i then length (properties s) else length (properties s) + 1)
     \<and> (\<forall>k'. key_count (snd (set_property [Dict [(k, v)]] s)) k'
           = (if k' = k \<and> key_count s k = 0 then 1 else key_count s k'))
     \<and> ((\<forall>a\<in>set kv. \<exists>k v. a = Dict [(k, v)]) \<longrightarrow>
           fst (set_property kv s) = Inr (int (length kv)))
     \<and> snd (set_property (Dict [(k, v)] # kv) s)
         = snd (set_property kv (snd (set_property [Dict [(k, v)]] s)))"
proof (intro conjI allI impI)
  show "fst (set_property [Dict [(k, v)]] s) = Inr 1"
    by (simp add: set_property_single[OF assms] split: option.splits)
next
  fix i assume "holds_key s k i \<and> (\<forall>j<i. \<not> holds_key s k j)"
  then show "snd (set_property [Dict [(k, v)]] s)
             = s\<lparr>properties := (properties s)
                    [i := Dict (dict_setitem k v (the_dict (properties s ! i)))]\<rparr>"
    using set_property_found[OF assms, of k i v] by simp
next
  assume "\<forall>i. \<not> holds_key s k i"
  then show "snd (set_property [Dict [(k, v)]] s)
             = s\<lparr>properties := properties s @ [Dict [(k, v)]],
                  isComment := isComment s @ [0]\<rparr>"
    by (simp add: set_property_not_found[OF assms])
next
  show "length (properties (snd (set_property [Dict [(k, v)]] s)))
         = (if \<exists>i. holds_key s k i then length (properties s) else length (properties s) + 1)"
  proof (cases "\<exists>i. holds_key s k i")
    case True
    then obtain i where "holds_key s k i" by blast
    from first_holder[OF this] obtain i0
      where "holds_key s k i0" and "\<forall>j<i0. \<not> holds_key s k j" by blast
    from set_property_found[OF assms this, of v] True show ?thesis by simp
  next
    case False
    then show ?thesis by (simp add: set_property_not_found[OF assms])
  qed
next
  fix k'
  show "key_count (snd (set_property [Dict [(k, v)]] s)) k'
           = (if k' = k \<and> key_count s k = 0 then 1 else key_count s k')"
  proof (cases "\<exists>i. holds_key s k i")
    case True
    then obtain i where "holds_key s k i" by blast
    from first_holder[OF this] obtain i0
      where i0: "holds_key s k i0" and f: "\<forall>j<i0. \<not> holds_key s k j" by blast
    from True have "key_count s k \<noteq> 0" by (simp add: key_count_0)
    with set_property_found[OF assms i0 f, of v] show ?thesis
      by (simp add: key_count_found[OF assms i0])
  next
    case False
    then have n: "\<forall>i. \<not> holds_key s k i" by simp
    then have "key_count s k = 0" by (simp add: key_count_0)
    then show ?thesis
      by (simp add: set_property_not_found[OF assms n] key_count_appended[OF assms])
  qed
next
  assume a: "\<forall>a\<in>set kv. \<exists>k v. a = Dict [(k, v)]"
  then have ne: "\<forall>a\<in>set kv. a \<noteq> Dict []" and d: "\<not> (\<exists>a\<in>set kv. \<not> is_Dict a)"
    by auto
  from set_property_args_result[OF assms ne] d
  have "fst (set_property_args kv s) = Inr ()" by simp
  then show "fst (set_property kv s) = Inr (int (length kv))"
    by (cases "set_property_args kv s") (auto simp: set_property_def)
next
  show "snd (set_property (Dict [(k, v)] # kv) s)
         = snd (set_property kv (snd (set_property [Dict [(k, v)]] s)))"
    by (rule set_property_then[OF assms])
qed


theorem set_property_single_key_witness:
  "invar \<lparr>fileName = ''example.properties'', isComment = [1, 0],
          properties = [Str '' hello'', Dict [(''foo'', ''bar'')]]\<rparr>
   \<and> holds_key \<lparr>fileName = ''example.properties'', isComment = [1, 0],
          properties = [Str '' hello'', Dict [(''foo'', ''bar'')]]\<rparr> ''foo'' 1
   \<and> \<not> holds_key \<lparr>fileName = ''example.properties'', isComment = [1, 0],
          properties = [Str '' hello'', Dict [(''foo'', ''bar'')]]\<rparr> ''foo'' 0
   \<and> set_property [Dict [(''foo'', ''baz'')]]
        \<lparr>fileName = ''example.properties'', isComment = [1, 0],
         properties = [Str '' hello'', Dict [(''foo'', ''bar'')]]\<rparr>
     = (Inr 1, \<lparr>fileName = ''example.properties'', isComment = [1, 0],
                properties = [Str '' hello'', Dict [(''foo'', ''baz'')]]\<rparr>)
   \<and> set_property [Dict [(''new'', ''1'')]]
        \<lparr>fileName = ''example.properties'', isComment = [1, 0],
         properties = [Str '' hello'', Dict [(''foo'', ''bar'')]]\<rparr>
     = (Inr 1, \<lparr>fileName = ''example.properties'', isComment = [1, 0, 0],
                properties = [Str '' hello'', Dict [(''foo'', ''bar'')], Dict [(''new'', ''1'')]]\<rparr>)
   \<and> fst (set_property [Dict [(''new'', ''1'')], Dict [(''foo'', ''baz'')]]
        \<lparr>fileName = ''example.properties'', isComment = [1, 0],
         properties = [Str '' hello'', Dict [(''foo'', ''bar'')]]\<rparr>) = Inr 2"
proof -
  let ?s = "\<lparr>fileName = ''example.properties'', isComment = [1, 0],
          properties = [Str '' hello'', Dict [(''foo'', ''bar'')]]\<rparr>"
  have h: "invar ?s"
    by (simp add: invar_def)
  have f1: "holds_key ?s ''foo'' 1" and f0: "\<not> holds_key ?s ''foo'' 0"
    by (simp_all add: holds_key_def entry_has_key_def dict_keys_def)
  have first: "holds_key ?s ''foo'' 1 \<and> (\<forall>j<1. \<not> holds_key ?s ''foo'' j)"
    using f1 f0 by simp
  have none: "\<forall>i. \<not> holds_key ?s ''new'' i"
  proof (intro allI notI)
    fix i assume i: "holds_key ?s ''new'' i"
    then have "i < 2" by (simp add: holds_key_def)
    then have "i = 0 \<or> i = 1" by arith
    with i show False
      by (auto simp: holds_key_def entry_has_key_def dict_keys_def)
  qed
  have single: "\<forall>a\<in>set [Dict [(''new'', ''1'')], Dict [(''foo'', ''baz'')]]. \<exists>k v. a = Dict [(k, v)]"
    by simp
  note a = set_property_single_key[OF h, of "''foo''" "''baz''"
      "[Dict [(''new'', ''1'')], Dict [(''foo'', ''baz'')]]"]
  note b = set_property_single_key[OF h, of "''new''" "''1''" "[]"]
  from a first have "snd (set_property [Dict [(''foo'', ''baz'')]] ?s)
     = ?s\<lparr>properties := (properties ?s)
           [1 := Dict (dict_setitem ''foo'' ''baz'' (the_dict (properties ?s ! 1)))]\<rparr>"
    by blast
  moreover from a have "fst (set_property [Dict [(''foo'', ''baz'')]] ?s) = Inr 1" by blast
  ultimately have r1: "set_property [Dict [(''foo'', ''baz'')]] ?s
     = (Inr 1, \<lparr>fileName = ''example.properties'', isComment = [1, 0],
                properties = [Str '' hello'', Dict [(''foo'', ''baz'')]]\<rparr>)"
    by (simp add: prod_eq_iff)
  from b none have "snd (set_property [Dict [(''new'', ''1'')]] ?s)
     = ?s\<lparr>properties := properties ?s @ [Dict [(''new'', ''1'')]],
          isComment := isComment ?s @ [0]\<rparr>"
    by blast
  moreover from b have "fst (set_property [Dict [(''new'', ''1'')]] ?s) = Inr 1" by blast
  ultimately have r2: "set_property [Dict [(''new'', ''1'')]] ?s
     = (Inr 1, \<lparr>fileName = ''example.properties'', isComment = [1, 0, 0],
                properties = [Str '' hello'', Dict [(''foo'', ''bar'')], Dict [(''new'', ''1'')]]\<rparr>)"
    by (simp add: prod_eq_iff)
  from a single have r3: "fst (set_property [Dict [(''new'', ''1'')], Dict [(''foo'', ''baz'')]] ?s) = Inr 2"
    by simp
  from h f1 f0 r1 r2 r3 show ?thesis by blast
qed

section \<open>\<open>get_property\<close> and \<open>get_all_properties\<close>\<close>

lemma get_property_find:
  assumes "invar s" and "\<forall>n\<in>set ns. n < length (properties s)"
  shows "get_property_loop ns k s =
     (case List.find (holds_key s k) ns of
        None \<Rightarrow> Inl IndexError_no_item
      | Some n \<Rightarrow> dict_getitem (the_dict (properties s ! n)) k)"
  using assms(2)
proof (induction ns)
  case Nil
  then show ?case by simp
next
  case (Cons n ns)
  then have n: "n < length (properties s)" and ns: "\<forall>n\<in>set ns. n < length (properties s)"
    by simp_all
  from n assms(1) have nc: "n < length (isComment s)" by (simp add: invar_length)
  show ?case
  proof (cases "isComment s ! n = 0")
    case True
    with invar_nth_Dict[OF assms(1) n] obtain d where d: "properties s ! n = Dict d"
      by (cases "properties s ! n") auto
    from True d holds_key_invar[OF assms(1) n, of k]
    have h: "holds_key s k n \<longleftrightarrow> k \<in> set (dict_keys d)" by simp
    show ?thesis
      using True d h Cons.IH[OF ns]
      by (simp add: index_in_range[OF n] index_in_range[OF nc])
  next
    case False
    with holds_key_invar[OF assms(1) n, of k] have h: "\<not> holds_key s k n" by simp
    show ?thesis
      using False h Cons.IH[OF ns]
      by (simp add: index_in_range[OF nc])
  qed
qed

lemma dict_getitem_key:
  "k \<in> set (dict_keys d) \<Longrightarrow> \<exists>v. map_of d k = Some v \<and> dict_getitem d k = Inr v"
  by (cases "map_of d k") (auto simp: dict_getitem_def dict_keys_def map_of_eq_None_iff)

lemma get_property_found:
  assumes "invar s" and "holds_key s k i" and "\<forall>j<i. \<not> holds_key s k j"
    and "properties s ! i = Dict d"
  shows "\<exists>v. map_of d k = Some v \<and> get_property s k = Inr v"
proof -
  have r: "\<forall>n\<in>set [0..<length (properties s)]. n < length (properties s)" by simp
  from assms(2) have "i < length (properties s)" by (simp add: holds_key_def)
  with assms(2,3) have "List.find (holds_key s k) [0..<length (properties s)] = Some i"
    by (simp add: find_upt_Some)
  with get_property_find[OF assms(1) r, of k] assms(4)
  have g: "get_property s k = dict_getitem d k" by (simp add: get_property_def)
  from assms(2,4) have "k \<in> set (dict_keys d)" by (simp add: holds_key_def entry_has_key_def)
  from dict_getitem_key[OF this] g show ?thesis by simp
qed

lemma get_property_not_found:
  assumes "invar s" and "\<forall>i. \<not> holds_key s k i"
  shows "get_property s k = Inl IndexError_no_item"
proof -
  have r: "\<forall>n\<in>set [0..<length (properties s)]. n < length (properties s)" by simp
  from assms(2) have "List.find (holds_key s k) [0..<length (properties s)] = None"
    by (simp add: find_upt_None)
  with get_property_find[OF assms(1) r, of k] show ?thesis by (simp add: get_property_def)
qed

text \<open>
  C8. \<open>get_property(k)\<close> returns the value that the first key-value entry holding
  \<open>k\<close> gives to \<open>k\<close>, and raises its \<open>IndexError\<close> exactly when no key-value entry
  holds \<open>k\<close>. With the same key in two entries the result is the first value, while
  \<open>get_all_properties\<close> gives the last one: for \<open>a=1\<close>, \<open>a=2\<close> they are \<open>1\<close> and
  \<open>2\<close>.
\<close>

theorem get_property_first_match:
  assumes "invar s"
  shows "(\<forall>i d. holds_key s k i \<and> (\<forall>j<i. \<not> holds_key s k j) \<and> properties s ! i = Dict d \<longrightarrow>
            (\<exists>v. map_of d k = Some v \<and> get_property s k = Inr v))
     \<and> ((\<forall>i. \<not> holds_key s k i) \<longrightarrow> get_property s k = Inl IndexError_no_item)
     \<and> ((\<exists>i. holds_key s k i) \<longrightarrow> (\<exists>v. get_property s k = Inr v))
     \<and> get_property duplicate_example ''a'' = Inr ''1''
     \<and> get_all_properties duplicate_example = Inr [(''a'', ''2'')]"
proof (intro conjI allI impI)
  fix i d
  assume "holds_key s k i \<and> (\<forall>j<i. \<not> holds_key s k j) \<and> properties s ! i = Dict d"
  then show "\<exists>v. map_of d k = Some v \<and> get_property s k = Inr v"
    using get_property_found[OF assms, of k i d] by blast
next
  assume "\<forall>i. \<not> holds_key s k i"
  then show "get_property s k = Inl IndexError_no_item"
    by (rule get_property_not_found[OF assms])
next
  assume "\<exists>i. holds_key s k i"
  then obtain i where "holds_key s k i" by blast
  from first_holder[OF this] obtain i0
    where i0: "holds_key s k i0" and f: "\<forall>j<i0. \<not> holds_key s k j" by blast
  from i0 obtain d where "properties s ! i0 = Dict d"
    by (cases "properties s ! i0") (auto simp: holds_key_def entry_has_key_def)
  from get_property_found[OF assms i0 f this] show "\<exists>v. get_property s k = Inr v" by blast
next
  show "get_property duplicate_example ''a'' = Inr ''1''"
    by (simp add: duplicate_example_def run_defs)
next
  show "get_all_properties duplicate_example = Inr [(''a'', ''2'')]"
    by (simp add: duplicate_example_def run_defs)
qed

theorem get_property_first_match_witness:
  "invar duplicate_example
   \<and> holds_key duplicate_example ''a'' 0
   \<and> properties duplicate_example ! 0 = Dict [(''a'', ''1'')]
   \<and> map_of [(''a'', ''1'')] ''a'' = Some ''1''
   \<and> get_property duplicate_example ''a'' = Inr ''1''
   \<and> get_property duplicate_example ''b'' = Inl IndexError_no_item"
proof -
  have h: "invar duplicate_example"
    by (simp add: invar_def duplicate_example_def)
  have f: "holds_key duplicate_example ''a'' 0 \<and> (\<forall>j<0. \<not> holds_key duplicate_example ''a'' j)
      \<and> properties duplicate_example ! 0 = Dict [(''a'', ''1'')]"
    by (simp add: holds_key_def entry_has_key_def dict_keys_def duplicate_example_def)
  have none: "\<forall>i. \<not> holds_key duplicate_example ''b'' i"
  proof (intro allI notI)
    fix i assume i: "holds_key duplicate_example ''b'' i"
    then have "i < 2" by (simp add: holds_key_def duplicate_example_def)
    then have "i = 0 \<or> i = 1" by arith
    with i show False
      by (auto simp: holds_key_def entry_has_key_def dict_keys_def duplicate_example_def)
  qed
  note a = get_property_first_match[OF h, of "''a''"]
  note b = get_property_first_match[OF h, of "''b''"]
  from a f have "\<exists>v. map_of [(''a'', ''1'')] ''a'' = Some v \<and> get_property duplicate_example ''a'' = Inr v"
    by blast
  then have r1: "get_property duplicate_example ''a'' = Inr ''1''" by simp
  from b none have r2: "get_property duplicate_example ''b'' = Inl IndexError_no_item" by blast
  from h f r1 r2 show ?thesis by simp
qed

lemma map_of_dict_update:
  "distinct (dict_keys a) \<Longrightarrow> map_of (dict_update d a) = map_of d ++ map_of a"
  unfolding dict_update_def dict_keys_def
proof (induction a arbitrary: d)
  case Nil
  then show ?case by simp
next
  case (Cons p a)
  from Cons.prems have n: "map_of a (fst p) = None" and da: "distinct (map fst a)"
    by (simp_all add: map_of_eq_None_iff)
  have e: "map_of (dict_setitem (fst p) (snd p) d) ++ map_of a = map_of d ++ map_of (p # a)"
    using n by (cases p) (auto simp: map_of_setitem fun_eq_iff map_add_def split: option.splits)
  have "map_of (foldl (\<lambda>acc kv. dict_setitem (fst kv) (snd kv) acc) d (p # a))
      = map_of (foldl (\<lambda>acc kv. dict_setitem (fst kv) (snd kv) acc)
          (dict_setitem (fst p) (snd p) d) a)"
    by simp
  also have "\<dots> = map_of (dict_setitem (fst p) (snd p) d) ++ map_of a"
    by (rule Cons.IH[OF da])
  also note e
  finally show ?case .
qed

lemma merged_snoc:
  "merged (ps @ [p]) = (if is_Dict p then dict_update (merged ps) (the_dict p) else merged ps)"
  by (simp add: merged_def)

lemma merged_none:
  assumes "\<forall>p\<in>set ps. \<not> entry_has_key k p"
    and "\<forall>p\<in>set ps. case p of Str t \<Rightarrow> True | Dict d \<Rightarrow> distinct (dict_keys d)"
  shows "map_of (merged ps) k = None"
  using assms
proof (induction ps rule: rev_induct)
  case Nil
  then show ?case by (simp add: merged_def)
next
  case (snoc p ps)
  then have ih: "map_of (merged ps) k = None" by simp
  show ?case
  proof (cases p)
    case (Str t)
    with ih show ?thesis by (simp add: merged_snoc)
  next
    case (Dict d)
    with snoc.prems have nk: "k \<notin> set (dict_keys d)" and dd: "distinct (dict_keys d)"
      by (simp_all add: entry_has_key_def)
    from nk have dk: "map_of d k = None"
      by (simp add: dict_keys_def map_of_eq_None_iff)
    show ?thesis
      using ih Dict dk
      by (simp add: merged_snoc map_of_dict_update[OF dd] map_add_def)
  qed
qed

lemma merged_last:
  assumes "i < length ps" and "ps ! i = Dict d" and "k \<in> set (dict_keys d)"
    and "\<forall>j. i < j \<and> j < length ps \<longrightarrow> \<not> entry_has_key k (ps ! j)"
    and "\<forall>p\<in>set ps. case p of Str t \<Rightarrow> True | Dict d \<Rightarrow> distinct (dict_keys d)"
  shows "map_of (merged ps) k = map_of d k"
  using assms
proof (induction ps rule: rev_induct)
  case Nil
  then show ?case by simp
next
  case (snoc p ps)
  show ?case
  proof (cases "i = length ps")
    case True
    with snoc.prems(2) have p: "p = Dict d" by simp
    with snoc.prems(5) have dd: "distinct (dict_keys d)" by simp
    from snoc.prems(3) obtain v where "map_of d k = Some v"
      by (cases "map_of d k") (auto simp: dict_keys_def map_of_eq_None_iff)
    then show ?thesis
      using p dd by (simp add: merged_snoc map_of_dict_update map_add_def)
  next
    case False
    with snoc.prems(1) have i: "i < length ps" by simp
    with snoc.prems(2) have at: "ps ! i = Dict d" by (simp add: nth_append)
    have later: "\<forall>j. i < j \<and> j < length ps \<longrightarrow> \<not> entry_has_key k (ps ! j)"
    proof (intro allI impI)
      fix j assume j: "i < j \<and> j < length ps"
      with snoc.prems(4) have "\<not> entry_has_key k ((ps @ [p]) ! j)" by simp
      with j show "\<not> entry_has_key k (ps ! j)" by (simp add: nth_append)
    qed
    from snoc.prems(5) have dist: "\<forall>p\<in>set ps. case p of Str t \<Rightarrow> True | Dict d \<Rightarrow> distinct (dict_keys d)"
      by simp
    from snoc.IH[OF i at snoc.prems(3) later dist] have ih: "map_of (merged ps) k = map_of d k" .
    from snoc.prems(4) i have np: "\<not> entry_has_key k p"
      by (metis length_append_singleton lessI nth_append_length)
    show ?thesis
    proof (cases p)
      case (Str t)
      with ih show ?thesis by (simp add: merged_snoc)
    next
      case (Dict d')
      with np snoc.prems(5) have nk: "k \<notin> set (dict_keys d')" and dd: "distinct (dict_keys d')"
        by (simp_all add: entry_has_key_def)
      from nk have dk: "map_of d' k = None"
        by (simp add: dict_keys_def map_of_eq_None_iff)
      show ?thesis
        using ih Dict dk
        by (simp add: merged_snoc map_of_dict_update[OF dd] map_add_def)
    qed
  qed
qed

lemma get_all_loop_merge:
  assumes "invar s" and "\<forall>n\<in>set ns. n < length (properties s)"
  shows "get_all_loop ns acc s =
     Inr (foldl dict_update acc (map the_dict (filter is_Dict (map (nth (properties s)) ns))))"
  using assms(2)
proof (induction ns arbitrary: acc)
  case Nil
  then show ?case by simp
next
  case (Cons n ns)
  then have n: "n < length (properties s)" and ns: "\<forall>n\<in>set ns. n < length (properties s)"
    by simp_all
  from n assms(1) have nc: "n < length (isComment s)" by (simp add: invar_length)
  show ?case
  proof (cases "properties s ! n")
    case (Str t)
    with invar_nth_Dict[OF assms(1) n] have "isComment s ! n \<noteq> 0" by simp
    with Str Cons.IH[OF ns] show ?thesis
      by (simp add: index_in_range[OF nc])
  next
    case (Dict d)
    with invar_nth_Dict[OF assms(1) n] have "isComment s ! n = 0" by simp
    with Dict Cons.IH[OF ns] show ?thesis
      by (simp add: index_in_range[OF nc] index_in_range[OF n])
  qed
qed

lemma get_all_properties_merged:
  assumes "invar s"
  shows "get_all_properties s = Inr (merged (properties s))"
proof -
  have r: "\<forall>n\<in>set [0..<length (properties s)]. n < length (properties s)" by simp
  from get_all_loop_merge[OF assms r, of "[]"] show ?thesis
    by (simp add: get_all_properties_def merged_def map_nth)
qed

lemma holds_key_entry:
  assumes "invar s"
  shows "holds_key s k i \<longleftrightarrow> i < length (properties s) \<and> entry_has_key k (properties s ! i)"
proof (cases "i < length (properties s)")
  case True
  from invar_nth_Dict[OF assms True] invar_length[OF assms] True show ?thesis
    by (cases "properties s ! i") (auto simp: holds_key_def entry_has_key_def)
next
  case False
  then show ?thesis by (simp add: holds_key_def)
qed

text \<open>
  C9. \<open>get_all_properties\<close> returns the dictionaries among the entries merged in
  order into a new dictionary. A key has there the value of the last key-value entry
  that holds it, and a key that no key-value entry holds is absent: comments add
  nothing. The file \<open>a=1\<close>, \<open>a=2\<close> loads into the entries \<open>{a: 1}\<close>, \<open>{a: 2}\<close>,
  for which the result maps \<open>a\<close> to \<open>2\<close>.
\<close>

theorem get_all_properties_last_wins:
  assumes "invar s" and "dicts_distinct s"
  shows "get_all_properties s = Inr (merged (properties s))
     \<and> (\<forall>i d. holds_key s k i \<and> (\<forall>j. i < j \<longrightarrow> \<not> holds_key s k j)
               \<and> properties s ! i = Dict d \<longrightarrow>
            map_of (merged (properties s)) k = map_of d k)
     \<and> ((\<forall>i. \<not> holds_key s k i) \<longrightarrow> map_of (merged (properties s)) k = None)
     \<and> load (''a=1'' @ [newline] @ ''a=2'' @ [newline]) = Inr (properties duplicate_example)
     \<and> get_all_properties duplicate_example = Inr [(''a'', ''2'')]
     \<and> dict_getitem [(''a'', ''2'')] ''a'' = Inr ''2''"
proof (intro conjI allI impI)
  show "get_all_properties s = Inr (merged (properties s))"
    by (rule get_all_properties_merged[OF assms(1)])
next
  from assms(2)
  have dist: "\<forall>p\<in>set (properties s). case p of Str t \<Rightarrow> True | Dict d \<Rightarrow> distinct (dict_keys d)"
    by (simp add: dicts_distinct_def list_all_iff)
  {
    fix i d
    assume a: "holds_key s k i \<and> (\<forall>j. i < j \<longrightarrow> \<not> holds_key s k j) \<and> properties s ! i = Dict d"
    then have i: "i < length (properties s)" and at: "properties s ! i = Dict d"
      by (simp_all add: holds_key_def)
    from a have "entry_has_key k (Dict d)"
      by (auto simp: holds_key_def)
    then have kd: "k \<in> set (dict_keys d)"
      by (simp add: entry_has_key_def)
    from a have later: "\<forall>j. i < j \<and> j < length (properties s) \<longrightarrow> \<not> entry_has_key k (properties s ! j)"
      by (simp add: holds_key_entry[OF assms(1)])
    from merged_last[OF i at kd later dist]
    show "map_of (merged (properties s)) k = map_of d k" .
  }
  {
    assume "\<forall>i. \<not> holds_key s k i"
    then have "\<forall>i<length (properties s). \<not> entry_has_key k (properties s ! i)"
      by (simp add: holds_key_entry[OF assms(1)])
    then have "\<forall>p\<in>set (properties s). \<not> entry_has_key k p"
      by (auto simp: in_set_conv_nth)
    from merged_none[OF this dist] show "map_of (merged (properties s)) k = None" .
  }
next
  show "load (''a=1'' @ [newline] @ ''a=2'' @ [newline]) = Inr (properties duplicate_example)"
    by (simp add: duplicate_example_def run_defs)
next
  show "get_all_properties duplicate_example = Inr [(''a'', ''2'')]"
    by (simp add: duplicate_example_def run_defs)
next
  show "dict_getitem [(''a'', ''2'')] ''a'' = Inr ''2''"
    by (simp add: dict_getitem_def)
qed

theorem get_all_properties_last_wins_witness:
  "invar duplicate_example \<and> dicts_distinct duplicate_example
   \<and> holds_key duplicate_example ''a'' 1
   \<and> properties duplicate_example ! 1 = Dict [(''a'', ''2'')]
   \<and> get_all_properties duplicate_example = Inr (merged (properties duplicate_example))
   \<and> map_of (merged (properties duplicate_example)) ''a'' = Some ''2''
   \<and> map_of (merged (properties duplicate_example)) ''b'' = None"
proof -
  have h: "invar duplicate_example"
    by (simp add: invar_def duplicate_example_def)
  have dd: "dicts_distinct duplicate_example"
    by (simp add: dicts_distinct_def duplicate_example_def dict_keys_def)
  have l: "holds_key duplicate_example ''a'' 1
      \<and> (\<forall>j. 1 < j \<longrightarrow> \<not> holds_key duplicate_example ''a'' j)
      \<and> properties duplicate_example ! 1 = Dict [(''a'', ''2'')]"
    by (simp add: holds_key_def entry_has_key_def dict_keys_def duplicate_example_def)
  have none: "\<forall>i. \<not> holds_key duplicate_example ''b'' i"
  proof (intro allI notI)
    fix i assume i: "holds_key duplicate_example ''b'' i"
    then have "i < 2" by (simp add: holds_key_def duplicate_example_def)
    then have "i = 0 \<or> i = 1" by arith
    with i show False
      by (auto simp: holds_key_def entry_has_key_def dict_keys_def duplicate_example_def)
  qed
  note a = get_all_properties_last_wins[OF h dd, of "''a''"]
  note b = get_all_properties_last_wins[OF h dd, of "''b''"]
  from a have r0: "get_all_properties duplicate_example = Inr (merged (properties duplicate_example))"
    by blast
  from a l have "map_of (merged (properties duplicate_example)) ''a'' = map_of [(''a'', ''2'')] ''a''"
    by blast
  then have r1: "map_of (merged (properties duplicate_example)) ''a'' = Some ''2''" by simp
  from b none have r2: "map_of (merged (properties duplicate_example)) ''b'' = None" by blast
  from h dd l r0 r1 r2 show ?thesis by blast
qed

end
